theory Spec2Isabelle
  imports Main "HOL-Library.Word" "HOL-Library.Char_ord" "HOL-Library.List_Lexorder"
begin

section \<open>Data model\<close>

text \<open>
  Both programs (\<^verbatim>\<open>indexer.cpp\<close>, \<^verbatim>\<open>searching.cpp\<close>) declare the same two structs.
  A \<^verbatim>\<open>std::string\<close> is a sequence of bytes, here a \<^typ>\<open>string\<close>; its \<^verbatim>\<open>operator<\<close>
  compares bytes as unsigned values, lexicographically, a proper prefix being smaller:
  the order of \<^typ>\<open>char list\<close> given by the two library theories imported above.
\<close>

record DirectIndex =
  doc_id :: string
  title :: string
  url :: string

record InvertedIndex =
  term_str :: string
  doc_ids :: "string list"

section \<open>searching.cpp: the three set operations\<close>

text \<open>
  The bodies of \<^verbatim>\<open>std::set_intersection\<close>, \<^verbatim>\<open>std::set_union\<close> and
  \<^verbatim>\<open>std::set_difference\<close> as the C++ standard library gives them: one pass over both
  ranges, comparing the two front elements with \<^verbatim>\<open><\<close> only.
\<close>

fun set_intersection :: "'a::linorder list \<Rightarrow> 'a list \<Rightarrow> 'a list" where
  "set_intersection [] ys = []"
| "set_intersection (x # xs) [] = []"
| "set_intersection (x # xs) (y # ys) =
     (if x < y then set_intersection xs (y # ys)
      else if y < x then set_intersection (x # xs) ys
      else x # set_intersection xs ys)"

fun set_union :: "'a::linorder list \<Rightarrow> 'a list \<Rightarrow> 'a list" where
  "set_union [] ys = ys"
| "set_union (x # xs) [] = x # xs"
| "set_union (x # xs) (y # ys) =
     (if x < y then x # set_union xs (y # ys)
      else if y < x then y # set_union (x # xs) ys
      else x # set_union xs ys)"

fun set_difference :: "'a::linorder list \<Rightarrow> 'a list \<Rightarrow> 'a list" where
  "set_difference [] ys = []"
| "set_difference (x # xs) [] = x # xs"
| "set_difference (x # xs) (y # ys) =
     (if x < y then x # set_difference xs (y # ys)
      else if y < x then set_difference (x # xs) ys
      else set_difference xs ys)"

definition and_operation :: "'a::linorder list \<Rightarrow> 'a list \<Rightarrow> 'a list" where
  "and_operation left right =
     (if left = [] \<or> right = [] then [] else set_intersection left right)"

definition or_operation :: "'a::linorder list \<Rightarrow> 'a list \<Rightarrow> 'a list" where
  "or_operation left right =
     (if left = [] \<or> right = [] then [] else set_union left right)"

definition not_operation :: "'a::linorder list \<Rightarrow> 'a list \<Rightarrow> 'a list" where
  "not_operation left right =
     (if left = [] then [] else set_difference left right)"

section \<open>searching.cpp: parse_query\<close>

text \<open>
  The loop of \<^verbatim>\<open>parse_query\<close> over the characters of the query. Its state is the
  vector of tokens emitted so far, the operand being accumulated and the flag
  \<^verbatim>\<open>in_quotes\<close>. The branches are tested in the order of the source. The operator
  branch looks one character ahead (\<^verbatim>\<open>i + 1 < query.size() && query[i + 1] == c\<close>)
  and, on a doubled character, skips it (\<^verbatim>\<open>++i\<close>).
\<close>

definition flush :: "string list \<Rightarrow> string \<Rightarrow> string list" where
  "flush tokens token = (if token \<noteq> [] then tokens @ [token] else tokens)"

definition is_quote :: "char \<Rightarrow> bool" where
  "is_quote c \<longleftrightarrow> c = CHR 0x22"

definition is_separator :: "char \<Rightarrow> bool" where
  "is_separator c \<longleftrightarrow> c = CHR '' '' \<or> c = CHR ''('' \<or> c = CHR '')''"

definition is_operator_char :: "char \<Rightarrow> bool" where
  "is_operator_char c \<longleftrightarrow> c = CHR ''&'' \<or> c = CHR ''|'' \<or> c = CHR ''!''"

fun lex_loop :: "string \<Rightarrow> string list \<Rightarrow> string \<Rightarrow> bool \<Rightarrow> string list" where
  "lex_loop [] tokens token in_quotes = flush tokens token"
| "lex_loop (c # cs) tokens token in_quotes =
     (if is_quote c \<and> \<not> in_quotes then lex_loop cs tokens token True
      else if is_quote c \<and> in_quotes then lex_loop cs tokens token False
      else if is_separator c \<and> \<not> in_quotes
        then lex_loop cs (flush tokens token) [] in_quotes
      else if is_operator_char c
        then (if cs \<noteq> [] \<and> hd cs = c
              then lex_loop (tl cs) (flush tokens token @ [[c, c]]) [] in_quotes
              else lex_loop cs (flush tokens token @ [[c]]) [] in_quotes)
      else lex_loop cs tokens (token @ [c]) in_quotes)"

definition parse_query :: "string \<Rightarrow> string list" where
  "parse_query query = lex_loop query [] [] False"

section \<open>searching.cpp: boolean_search\<close>

text \<open>
  The stack is a \<^verbatim>\<open>std::vector\<close> whose back is the top: here a list whose last
  element is the top. \<^verbatim>\<open>lookup_term\<close> is the inner loop that scans the index for the
  first entry whose term equals the token.
\<close>

fun lookup_term :: "InvertedIndex list \<Rightarrow> string \<Rightarrow> string list option" where
  "lookup_term [] token = None"
| "lookup_term (entry # rest) token =
     (if term_str entry = token then Some (doc_ids entry) else lookup_term rest token)"

definition is_operator :: "string \<Rightarrow> bool" where
  "is_operator token \<longleftrightarrow> token = ''&&'' \<or> token = ''||'' \<or> token = ''!''"

definition eval_token ::
  "InvertedIndex list \<Rightarrow> string list list \<Rightarrow> string \<Rightarrow> string list list" where
  "eval_token inverted_index stack token =
     (if is_operator token then
        (if length stack < 2 then stack
         else
           let right = last stack;
               stack1 = butlast stack;
               left = last stack1;
               stack2 = butlast stack1;
               result =
                 (if token = ''&&'' then and_operation left right
                  else if token = ''||'' then or_operation left right
                  else not_operation left right)
           in stack2 @ [result])
      else
        (case lookup_term inverted_index token of
           Some ids \<Rightarrow> stack @ [ids]
         | None \<Rightarrow> stack))"

definition eval_tokens ::
  "InvertedIndex list \<Rightarrow> string list \<Rightarrow> string list list \<Rightarrow> string list list" where
  "eval_tokens inverted_index tokens stack = foldl (eval_token inverted_index) stack tokens"

definition boolean_search ::
  "string \<Rightarrow> InvertedIndex list \<Rightarrow> DirectIndex list \<Rightarrow> string list" where
  "boolean_search query inverted_index direct_index =
     (let stack = eval_tokens inverted_index (parse_query query) []
      in if stack = [] then [] else last stack)"

section \<open>The binary files\<close>

text \<open>
  Both programs move a \<^verbatim>\<open>uint64_t\<close> to and from a file through
  \<^verbatim>\<open>reinterpret_cast<char*>(&x)\<close> and \<^verbatim>\<open>sizeof(x)\<close>: the eight bytes of its object
  representation, least significant byte first on the little-endian machines the
  program is built for.
\<close>

type_synonym u64 = "64 word"

fun le_bytes :: "nat \<Rightarrow> nat \<Rightarrow> string" where
  "le_bytes 0 n = []"
| "le_bytes (Suc k) n = char_of n # le_bytes k (n div 256)"

fun le_value :: "string \<Rightarrow> nat" where
  "le_value [] = 0"
| "le_value (b # bs) = of_char b + 256 * le_value bs"

definition u64_bytes :: "u64 \<Rightarrow> string" where
  "u64_bytes w = le_bytes 8 (unat w)"

definition u64_of_bytes :: "string \<Rightarrow> u64" where
  "u64_of_bytes bs = word_of_nat (le_value bs)"

subsection \<open>indexer.cpp: write_direct_index, write_inverted_index\<close>

text \<open>
  \<^verbatim>\<open>put_string\<close> is the pair of \<^verbatim>\<open>out.write\<close> calls the source repeats for every string:
  the size as a \<^verbatim>\<open>uint64_t\<close>, then that many bytes of \<^verbatim>\<open>c_str()\<close>. \<^verbatim>\<open>document_bytes\<close> and
  \<^verbatim>\<open>entry_bytes\<close> are the bodies of the two writing loops. The writers take a flag
  saying whether the \<^verbatim>\<open>std::ofstream\<close> could be opened and return the diagnostics printed
  on \<^verbatim>\<open>std::cerr\<close> and the bytes written (\<open>None\<close> when nothing was written).
\<close>

datatype diagnostic =
    CorpusOpenFailed
  | JsonParseError
  | DuplicateDocument string
  | DirectWriteFailed
  | InvertedWriteFailed
  | LogOpenFailed
  | NoQueryFileArgument
  | QueryOpenFailed
  | DirectOpenFailed
  | InvertedOpenFailed

definition put_string :: "string \<Rightarrow> string" where
  "put_string str =
     (let n = (word_of_nat (length str) :: u64)
      in u64_bytes n @ take (unat n) str)"

definition document_bytes :: "DirectIndex \<Rightarrow> string" where
  "document_bytes doc = put_string (title doc) @ put_string (url doc)"

definition write_direct_index ::
  "DirectIndex list \<Rightarrow> bool \<Rightarrow> diagnostic list \<times> string option" where
  "write_direct_index direct_index opened =
     (if \<not> opened then ([DirectWriteFailed], None)
      else ([], Some (concat (map document_bytes direct_index))))"

definition entry_bytes :: "InvertedIndex \<Rightarrow> string" where
  "entry_bytes entry =
     put_string (term_str entry)
     @ u64_bytes (word_of_nat (length (doc_ids entry)))
     @ concat (map put_string (doc_ids entry))"

definition write_inverted_index ::
  "InvertedIndex list \<Rightarrow> bool \<Rightarrow> diagnostic list \<times> string option" where
  "write_inverted_index inverted_index opened =
     (if \<not> opened then ([InvertedWriteFailed], None)
      else ([], Some (concat (map entry_bytes inverted_index))))"

subsection \<open>searching.cpp: the input stream\<close>

text \<open>
  A \<^verbatim>\<open>std::ifstream\<close> opened on a file: the bytes not yet read and the two state bits
  the loaders test. \<^verbatim>\<open>infile.read(buf, n)\<close> does nothing but set \<^verbatim>\<open>failbit\<close> when the
  stream is not good; otherwise it delivers \<open>n\<close> bytes, or, when fewer are left,
  delivers those and sets \<^verbatim>\<open>eofbit\<close> and \<^verbatim>\<open>failbit\<close>.
\<close>

record istream =
  rest :: string
  eofbit :: bool
  failbit :: bool

definition open_in :: "string \<Rightarrow> istream" where
  "open_in bytes = \<lparr>rest = bytes, eofbit = False, failbit = False\<rparr>"

definition stream_read :: "nat \<Rightarrow> istream \<Rightarrow> string \<times> istream" where
  "stream_read n s =
     (if eofbit s \<or> failbit s then ([], s\<lparr>failbit := True\<rparr>)
      else if n \<le> length (rest s) then (take n (rest s), s\<lparr>rest := drop n (rest s)\<rparr>)
      else (rest s, s\<lparr>rest := [], eofbit := True, failbit := True\<rparr>))"

text \<open>
  The size variables of the loaders are declared without an initial value. A read that
  delivers fewer than eight bytes leaves such a variable (partly) uninitialised: the
  result \<open>None\<close>.
\<close>

definition read_u64 :: "istream \<Rightarrow> u64 option \<times> istream" where
  "read_u64 s =
     (let (bs, s') = stream_read 8 s
      in (if length bs = 8 then Some (u64_of_bytes bs) else None, s'))"

text \<open>
  A string is first resized to the size read, which fills it with zero bytes, and then
  overwritten by the bytes the stream delivers. \<^verbatim>\<open>resize\<close> throws \<^verbatim>\<open>std::length_error\<close> when
  the size is above \<^verbatim>\<open>max_size()\<close>; nothing in the program catches it, so the program is
  aborted: the result \<open>None\<close>. The two bounds are those of the GNU C++ library on a
  64-bit target, for \<^verbatim>\<open>std::string\<close> and for \<^verbatim>\<open>std::vector<std::string>\<close>. Below the
  bound the memory is taken to suffice.
\<close>

definition string_max_size :: nat where
  "string_max_size = 2 ^ 62 - 1"

definition vector_max_size :: nat where
  "vector_max_size = 2 ^ 58 - 1"

definition read_string :: "u64 \<Rightarrow> istream \<Rightarrow> (string \<times> istream) option" where
  "read_string n s =
     (if string_max_size < unat n then None
      else let (bs, s') = stream_read (unat n) s
           in Some (bs @ replicate (unat n - length bs) (CHR 0x00), s'))"

subsection \<open>searching.cpp: load_direct_index\<close>

text \<open>
  A loader runs to its end, or passes a size variable that no read has filled to
  \<^verbatim>\<open>resize\<close>, or is aborted by the exception of \<^verbatim>\<open>resize\<close>. C++ gives the second case no
  meaning and the model stops there with \<open>Indeterminate\<close>.
\<close>

datatype 'a outcome = Done 'a | Indeterminate | Aborted

text \<open>
  The body of the loop after the check of \<^verbatim>\<open>eof()\<close>: title, url and doc\_id are read
  in that order, none of the reads being checked.
\<close>

definition direct_record :: "u64 \<Rightarrow> istream \<Rightarrow> (DirectIndex \<times> istream) outcome" where
  "direct_record title_size s1 =
     (case read_string title_size s1 of
        None \<Rightarrow> Aborted
      | Some (t, s2) \<Rightarrow>
          (case read_u64 s2 of
             (None, s3) \<Rightarrow> Indeterminate
           | (Some url_size, s3) \<Rightarrow>
               (case read_string url_size s3 of
                  None \<Rightarrow> Aborted
                | Some (u, s4) \<Rightarrow>
                    (case read_u64 s4 of
                       (None, s5) \<Rightarrow> Indeterminate
                     | (Some doc_id_size, s5) \<Rightarrow>
                         (case read_string doc_id_size s5 of
                            None \<Rightarrow> Aborted
                          | Some (d, s6) \<Rightarrow>
                              Done (\<lparr>doc_id = d, title = t, url = u\<rparr>, s6))))))"

lemma stream_read_rest: "length (rest (snd (stream_read n s))) \<le> length (rest s)"
  by (simp add: stream_read_def)

lemma read_u64_rest: "read_u64 s = (v, s') \<Longrightarrow> length (rest s') \<le> length (rest s)"
  using stream_read_rest [of 8 s] by (cases "stream_read 8 s") (auto simp: read_u64_def)

lemma read_string_rest:
  "read_string n s = Some (str, s') \<Longrightarrow> length (rest s') \<le> length (rest s)"
  using stream_read_rest [of "unat n" s]
  by (cases "stream_read (unat n) s") (auto simp: read_string_def split: if_splits)

lemma read_u64_Some_rest:
  "read_u64 s = (Some v, s1) \<Longrightarrow> length (rest s1) < length (rest s)"
  by (auto simp: read_u64_def stream_read_def split: if_splits)

lemma direct_record_rest:
  assumes "direct_record n s = Done (doc, s')"
  shows "length (rest s') \<le> length (rest s)"
proof -
  obtain t s2 where a: "read_string n s = Some (t, s2)"
    using assms by (cases "read_string n s") (auto simp: direct_record_def)
  obtain uo s3 where b: "read_u64 s2 = (uo, s3)" by (cases "read_u64 s2")
  obtain usz where c: "uo = Some usz"
    using assms a b by (cases uo) (simp_all add: direct_record_def)
  obtain u s4 where d: "read_string usz s3 = Some (u, s4)"
    using assms a b c by (cases "read_string usz s3") (auto simp: direct_record_def)
  obtain dz s5 where e: "read_u64 s4 = (dz, s5)" by (cases "read_u64 s4")
  obtain dsz where f: "dz = Some dsz"
    using assms a b c d e by (cases dz) (simp_all add: direct_record_def)
  obtain dd s6 where g: "read_string dsz s5 = Some (dd, s6)"
    using assms a b c d e f by (cases "read_string dsz s5") (auto simp: direct_record_def)
  have h: "s' = s6" using assms a b c d e f g by (simp add: direct_record_def)
  have "length (rest s2) \<le> length (rest s)" using a by (rule read_string_rest)
  moreover have "length (rest s3) \<le> length (rest s2)" using b by (rule read_u64_rest)
  moreover have "length (rest s4) \<le> length (rest s3)" using d by (rule read_string_rest)
  moreover have "length (rest s5) \<le> length (rest s4)" using e by (rule read_u64_rest)
  moreover have "length (rest s6) \<le> length (rest s5)" using g by (rule read_string_rest)
  ultimately show ?thesis using h by simp
qed

function direct_loop :: "istream \<Rightarrow> DirectIndex list \<Rightarrow> DirectIndex list outcome" where
  "direct_loop s direct_index =
     (if failbit s then Done direct_index
      else case read_u64 s of
        (title_size, s1) \<Rightarrow>
          if eofbit s1 then Done direct_index
          else (case title_size of
                  None \<Rightarrow> Indeterminate
                | Some tsz \<Rightarrow>
                    (case direct_record tsz s1 of
                       Done (doc, s') \<Rightarrow> direct_loop s' (direct_index @ [doc])
                     | Indeterminate \<Rightarrow> Indeterminate
                     | Aborted \<Rightarrow> Aborted)))"
  by pat_completeness auto
termination
proof (relation "measure (\<lambda>(s, acc). length (rest s))")
  show "wf (measure (\<lambda>(s, acc). length (rest s)))" by simp
next
  fix s :: istream and direct_index title_size s1 tsz y doc s'
  assume "(title_size, s1) = read_u64 s" "title_size = Some tsz"
    "direct_record tsz s1 = Done y" "(doc, s') = y"
  then have a: "read_u64 s = (Some tsz, s1)" and b: "direct_record tsz s1 = Done (doc, s')"
    by (simp_all add: prod_eq_iff)
  show "((s', direct_index @ [doc]), s, direct_index) \<in> measure (\<lambda>(s, acc). length (rest s))"
    using read_u64_Some_rest [OF a] direct_record_rest [OF b] by simp
qed

declare direct_loop.simps [simp del]

text \<open>
  The file is \<open>None\<close> when it cannot be opened. The vector is the caller's, passed by
  reference; the diagnostics are what the loader prints on \<^verbatim>\<open>std::cerr\<close>.
\<close>

definition load_direct_index ::
  "string option \<Rightarrow> DirectIndex list \<Rightarrow> diagnostic list \<times> DirectIndex list outcome" where
  "load_direct_index file direct_index =
     (case file of
        None \<Rightarrow> ([DirectOpenFailed], Done direct_index)
      | Some bytes \<Rightarrow> ([], direct_loop (open_in bytes) direct_index))"

subsection \<open>searching.cpp: load_inverted_index\<close>

text \<open>
  The inner loop over the postings, and the body of the outer loop after the check of
  \<^verbatim>\<open>eof()\<close>. The vector of postings is resized to the count read before the loop.
\<close>

fun read_doc_ids :: "nat \<Rightarrow> istream \<Rightarrow> string list \<Rightarrow> (string list \<times> istream) outcome" where
  "read_doc_ids 0 s ids = Done (ids, s)"
| "read_doc_ids (Suc n) s ids =
     (case read_u64 s of
        (None, s1) \<Rightarrow> Indeterminate
      | (Some doc_id_size, s1) \<Rightarrow>
          (case read_string doc_id_size s1 of
             None \<Rightarrow> Aborted
           | Some (d, s2) \<Rightarrow> read_doc_ids n s2 (ids @ [d])))"

definition inverted_record :: "u64 \<Rightarrow> istream \<Rightarrow> (InvertedIndex \<times> istream) outcome" where
  "inverted_record term_size s1 =
     (case read_string term_size s1 of
        None \<Rightarrow> Aborted
      | Some (t, s2) \<Rightarrow>
          (case read_u64 s2 of
             (None, s3) \<Rightarrow> Indeterminate
           | (Some doc_count, s3) \<Rightarrow>
               if vector_max_size < unat doc_count then Aborted
               else (case read_doc_ids (unat doc_count) s3 [] of
                       Done (ids, s4) \<Rightarrow> Done (\<lparr>term_str = t, doc_ids = ids\<rparr>, s4)
                     | Indeterminate \<Rightarrow> Indeterminate
                     | Aborted \<Rightarrow> Aborted)))"

lemma read_doc_ids_rest:
  "read_doc_ids n s ids = Done (ids', s') \<Longrightarrow> length (rest s') \<le> length (rest s)"
proof (induction n arbitrary: s ids)
  case 0
  then show ?case by simp
next
  case (Suc n)
  obtain dz s1 where a: "read_u64 s = (dz, s1)" by (cases "read_u64 s")
  obtain dsz where b: "dz = Some dsz" using Suc.prems a by (cases dz) simp_all
  obtain d s2 where c: "read_string dsz s1 = Some (d, s2)"
    using Suc.prems a b by (cases "read_string dsz s1") auto
  have "read_doc_ids n s2 (ids @ [d]) = Done (ids', s')" using Suc.prems a b c by simp
  then have "length (rest s') \<le> length (rest s2)" by (rule Suc.IH)
  moreover have "length (rest s2) \<le> length (rest s1)" using c by (rule read_string_rest)
  moreover have "length (rest s1) \<le> length (rest s)" using a by (rule read_u64_rest)
  ultimately show ?case by simp
qed

lemma inverted_record_rest:
  assumes "inverted_record n s = Done (entry, s')"
  shows "length (rest s') \<le> length (rest s)"
proof -
  obtain t s2 where a: "read_string n s = Some (t, s2)"
    using assms by (cases "read_string n s") (auto simp: inverted_record_def)
  obtain co s3 where b: "read_u64 s2 = (co, s3)" by (cases "read_u64 s2")
  obtain cnt where c: "co = Some cnt"
    using assms a b by (cases co) (simp_all add: inverted_record_def)
  have v: "\<not> vector_max_size < unat cnt"
    using assms a b c by (auto simp: inverted_record_def split: if_splits)
  obtain ids s4 where d: "read_doc_ids (unat cnt) s3 [] = Done (ids, s4)"
    using assms a b c v
    by (cases "read_doc_ids (unat cnt) s3 []") (auto simp: inverted_record_def)
  have h: "s' = s4" using assms a b c v d by (simp add: inverted_record_def)
  have "length (rest s2) \<le> length (rest s)" using a by (rule read_string_rest)
  moreover have "length (rest s3) \<le> length (rest s2)" using b by (rule read_u64_rest)
  moreover have "length (rest s4) \<le> length (rest s3)" using d by (rule read_doc_ids_rest)
  ultimately show ?thesis using h by simp
qed

function inverted_loop ::
  "istream \<Rightarrow> InvertedIndex list \<Rightarrow> InvertedIndex list outcome" where
  "inverted_loop s inverted_index =
     (if failbit s then Done inverted_index
      else case read_u64 s of
        (term_size, s1) \<Rightarrow>
          if eofbit s1 then Done inverted_index
          else (case term_size of
                  None \<Rightarrow> Indeterminate
                | Some tsz \<Rightarrow>
                    (case inverted_record tsz s1 of
                       Done (entry, s') \<Rightarrow> inverted_loop s' (inverted_index @ [entry])
                     | Indeterminate \<Rightarrow> Indeterminate
                     | Aborted \<Rightarrow> Aborted)))"
  by pat_completeness auto
termination
proof (relation "measure (\<lambda>(s, acc). length (rest s))")
  show "wf (measure (\<lambda>(s, acc). length (rest s)))" by simp
next
  fix s :: istream and inverted_index term_size s1 tsz y entry s'
  assume "(term_size, s1) = read_u64 s" "term_size = Some tsz"
    "inverted_record tsz s1 = Done y" "(entry, s') = y"
  then have a: "read_u64 s = (Some tsz, s1)"
    and b: "inverted_record tsz s1 = Done (entry, s')"
    by (simp_all add: prod_eq_iff)
  show "((s', inverted_index @ [entry]), s, inverted_index)
          \<in> measure (\<lambda>(s, acc). length (rest s))"
    using read_u64_Some_rest [OF a] inverted_record_rest [OF b] by simp
qed

declare inverted_loop.simps [simp del]

definition load_inverted_index ::
  "string option \<Rightarrow> InvertedIndex list \<Rightarrow> diagnostic list \<times> InvertedIndex list outcome" where
  "load_inverted_index file inverted_index =
     (case file of
        None \<Rightarrow> ([InvertedOpenFailed], Done inverted_index)
      | Some bytes \<Rightarrow> ([], inverted_loop (open_in bytes) inverted_index))"

section \<open>searching.cpp: main\<close>

text \<open>
  The program's arguments after its name, and the files it can open: a function from
  a path to the bytes of the file there, \<open>None\<close> where no file can be opened.
  \<^verbatim>\<open>getlines\<close> is the repeated \<^verbatim>\<open>std::getline\<close>: a last line without a newline is still
  delivered, and nothing follows a final newline. The printed lines are kept as data,
  not as text.
\<close>

datatype output_line =
    NothingFound string
  | DocumentLine string string string
  | EmptyLine

record search_run =
  exit_status :: int
  out_lines :: "output_line list"
  err_lines :: "diagnostic list"

definition is_newline :: "char \<Rightarrow> bool" where
  "is_newline c \<longleftrightarrow> c = CHR 0x0A"

fun getlines :: "string \<Rightarrow> string \<Rightarrow> string list" where
  "getlines [] line = (if line = [] then [] else [line])"
| "getlines (c # cs) line =
     (if is_newline c then line # getlines cs [] else getlines cs (line @ [c]))"

definition print_result :: "DirectIndex list \<Rightarrow> string \<Rightarrow> string list \<Rightarrow> output_line list" where
  "print_result direct_index query result =
     (if result = [] then [NothingFound query]
      else concat (map (\<lambda>d. case find (\<lambda>doc. doc_id doc = d) direct_index of
                                 Some doc \<Rightarrow> [DocumentLine d (title doc) (url doc)]
                               | None \<Rightarrow> [])
                       result))
     @ [EmptyLine]"

definition answer_queries ::
  "string \<Rightarrow> InvertedIndex list \<Rightarrow> DirectIndex list \<Rightarrow> output_line list" where
  "answer_queries queries inverted_index direct_index =
     concat (map (\<lambda>query. print_result direct_index query
                              (boolean_search query inverted_index direct_index))
                 (filter (\<lambda>query. query \<noteq> []) (getlines queries [])))"

definition search_main :: "string list \<Rightarrow> (string \<Rightarrow> string option) \<Rightarrow> search_run outcome" where
  "search_main args files =
     (case args of
        [] \<Rightarrow> Done \<lparr>exit_status = 1, out_lines = [], err_lines = [NoQueryFileArgument]\<rparr>
      | query_file # _ \<Rightarrow>
          (case files query_file of
             None \<Rightarrow> Done \<lparr>exit_status = 1, out_lines = [], err_lines = [QueryOpenFailed]\<rparr>
           | Some queries \<Rightarrow>
               (case load_direct_index (files ''data/direct_index.bin'') [] of
                  (e1, Indeterminate) \<Rightarrow> Indeterminate
                | (e1, Aborted) \<Rightarrow> Aborted
                | (e1, Done direct_index) \<Rightarrow>
                    (case load_inverted_index (files ''data/inverted_index.bin'') [] of
                       (e2, Indeterminate) \<Rightarrow> Indeterminate
                     | (e2, Aborted) \<Rightarrow> Aborted
                     | (e2, Done inverted_index) \<Rightarrow>
                         Done \<lparr>exit_status = 0,
                               out_lines = answer_queries queries inverted_index direct_index,
                               err_lines = e1 @ e2\<rparr>))))"

section \<open>indexer.cpp: the builder\<close>

text \<open>
  \<^verbatim>\<open>std::isalnum\<close> and \<^verbatim>\<open>::tolower\<close> in the "C" locale, which is the one in force since
  the indexer never sets another: letters and digits are the ASCII ones, and a byte
  of a multi-byte UTF-8 sequence is neither.
\<close>

definition isalnum :: "char \<Rightarrow> bool" where
  "isalnum ch =
     (let n = (of_char ch :: nat)
      in (48 \<le> n \<and> n \<le> 57) \<or> (65 \<le> n \<and> n \<le> 90) \<or> (97 \<le> n \<and> n \<le> 122))"

definition tolower :: "char \<Rightarrow> char" where
  "tolower ch =
     (let n = (of_char ch :: nat) in if 65 \<le> n \<and> n \<le> 90 then char_of (n + 32) else ch)"

definition to_lower :: "string \<Rightarrow> string" where
  "to_lower s = map tolower s"

fun parse_tokens_loop :: "string \<Rightarrow> string \<Rightarrow> string list \<Rightarrow> string list" where
  "parse_tokens_loop [] token tokens =
     (if token \<noteq> [] then tokens @ [to_lower token] else tokens)"
| "parse_tokens_loop (ch # text) token tokens =
     (if isalnum ch then parse_tokens_loop text (token @ [ch]) tokens
      else if token \<noteq> [] then parse_tokens_loop text [] (tokens @ [to_lower token])
      else parse_tokens_loop text token tokens)"

definition parse_tokens :: "string \<Rightarrow> string list \<Rightarrow> string list" where
  "parse_tokens text tokens = parse_tokens_loop text [] tokens"

text \<open>
  The inner loop of \<^verbatim>\<open>main\<close> over the entries of the inverted index: the first entry
  whose term is the token gets the document's id appended (\<open>None\<close>: no entry has the
  term). \<^verbatim>\<open>index_tokens\<close> is the loop over the tokens of one document.
\<close>

fun push_doc_id :: "InvertedIndex list \<Rightarrow> string \<Rightarrow> string \<Rightarrow> InvertedIndex list option" where
  "push_doc_id [] token d = None"
| "push_doc_id (entry # entries) token d =
     (if term_str entry = token
      then Some (entry\<lparr>doc_ids := doc_ids entry @ [d]\<rparr> # entries)
      else (case push_doc_id entries token d of
              None \<Rightarrow> None
            | Some entries' \<Rightarrow> Some (entry # entries')))"

fun index_tokens ::
  "string list \<Rightarrow> string \<Rightarrow> InvertedIndex list \<times> nat \<Rightarrow> InvertedIndex list \<times> nat" where
  "index_tokens [] d (inverted_index, total_terms) = (inverted_index, total_terms)"
| "index_tokens (token # tokens) d (inverted_index, total_terms) =
     (case push_doc_id inverted_index token d of
        Some inverted_index' \<Rightarrow> index_tokens tokens d (inverted_index', total_terms)
      | None \<Rightarrow>
          index_tokens tokens d
            (inverted_index @ [\<lparr>term_str = token, doc_ids = [d]\<rparr>], total_terms + 1))"

text \<open>
  A line of the corpus, as \<^verbatim>\<open>Json::Reader::parse\<close>, the four \<^verbatim>\<open>operator[]\<close> and the four
  \<^verbatim>\<open>asString\<close> calls deliver it: a parse error; or the fields \<^verbatim>\<open>doc_id\<close>, \<^verbatim>\<open>title\<close>,
  \<^verbatim>\<open>normalized_url\<close> and \<^verbatim>\<open>clean_text\<close> as strings; or a value that parses but is not an
  object, or has an array or an object in one of the four fields, for which the
  library throws an exception that nothing in the program catches. The counters are
  \<^verbatim>\<open>uint64_t\<close> in the source and natural numbers here; no corpus reaches their limit.
\<close>

datatype corpus_line = ParseError | Parsed string string string string | Unconvertible

text \<open>
  The variables of \<^verbatim>\<open>main\<close> that the loop over the corpus changes, the diagnostics
  printed so far, and whether the program has been aborted by an exception.
\<close>

record build_state =
  direct_index :: "DirectIndex list"
  inverted_index :: "InvertedIndex list"
  total_tokens :: nat
  total_docs :: nat
  total_terms :: nat
  doc_ids_set :: "string set"
  messages :: "diagnostic list"
  aborted :: bool

definition initial_state :: build_state where
  "initial_state =
     \<lparr>direct_index = [], inverted_index = [], total_tokens = 0, total_docs = 0,
      total_terms = 0, doc_ids_set = {}, messages = [], aborted = False\<rparr>"

fun process_line :: "build_state \<Rightarrow> corpus_line \<Rightarrow> build_state" where
  "process_line st ParseError = st\<lparr>messages := messages st @ [JsonParseError]\<rparr>"
| "process_line st Unconvertible = st\<lparr>aborted := True\<rparr>"
| "process_line st (Parsed d t u clean_text) =
     (let tokens = parse_tokens clean_text [];
          (inv, terms) = index_tokens tokens d (inverted_index st, total_terms st)
      in st\<lparr>direct_index := direct_index st @ [\<lparr>doc_id = d, title = t, url = u\<rparr>],
             inverted_index := inv,
             total_tokens := total_tokens st + length tokens,
             total_docs := total_docs st + 1,
             total_terms := terms,
             doc_ids_set := (if d \<in> doc_ids_set st then doc_ids_set st
                             else insert d (doc_ids_set st)),
             messages := (if d \<in> doc_ids_set st then messages st @ [DuplicateDocument d]
                          else messages st)\<rparr>)"

text \<open>The loop over the lines of the corpus; an exception ends it.\<close>

fun corpus_loop :: "build_state \<Rightarrow> corpus_line list \<Rightarrow> build_state" where
  "corpus_loop st [] = st"
| "corpus_loop st (l # ls) =
     (let st' = process_line st l in if aborted st' then st' else corpus_loop st' ls)"

definition build :: "corpus_line list \<Rightarrow> build_state" where
  "build corpus = corpus_loop initial_state corpus"

text \<open>
  \<^verbatim>\<open>log_statistics\<close> returns at once when the log file cannot be opened. Otherwise it
  prints \<^verbatim>\<open>total_tokens / total_docs\<close>, a division of two \<^verbatim>\<open>uint64_t\<close>: with no document
  the program is ended by the division by zero. The other quotients are of type
  \<^verbatim>\<open>double\<close> and end nothing.
\<close>

datatype ending = Exit int | DivisionByZero | UncaughtException

record indexer_run =
  ended :: ending
  direct_file :: "string option"
  inverted_file :: "string option"
  printed :: "diagnostic list"

definition log_statistics :: "bool \<Rightarrow> nat \<Rightarrow> diagnostic list \<times> ending" where
  "log_statistics log_opened docs =
     (if \<not> log_opened then ([LogOpenFailed], Exit 0)
      else if docs = 0 then ([], DivisionByZero)
      else ([], Exit 0))"

text \<open>
  \<^verbatim>\<open>main\<close> of the indexer: the corpus is \<open>None\<close> when \<^verbatim>\<open>data/corpus.jsonl\<close> cannot be
  opened; the three flags say whether the two index files and the log file can be
  opened for writing. The index files are written after the loop over the corpus, so
  an exception in the loop leaves none.
\<close>

definition indexer_main :: "corpus_line list option \<Rightarrow> bool \<Rightarrow> bool \<Rightarrow> bool \<Rightarrow> indexer_run" where
  "indexer_main corpus direct_opened inverted_opened log_opened =
     (case corpus of
        None \<Rightarrow> \<lparr>ended = Exit 1, direct_file = None, inverted_file = None,
                  printed = [CorpusOpenFailed]\<rparr>
      | Some lines \<Rightarrow>
          (let st = build lines
           in if aborted st
              then \<lparr>ended = UncaughtException, direct_file = None, inverted_file = None,
                    printed = messages st\<rparr>
              else
                (let (e1, direct) = write_direct_index (direct_index st) direct_opened;
                     (e2, inverted) = write_inverted_index (inverted_index st) inverted_opened;
                     (e3, ending) = log_statistics log_opened (total_docs st)
                 in \<lparr>ended = ending, direct_file = direct, inverted_file = inverted,
                     printed = messages st @ e1 @ e2 @ e3\<rparr>)))"

section \<open>A worked example\<close>

text \<open>
  The inverted index of the corpus with the documents d1 = "cat dog" and
  d2 = "dog bird".
\<close>

definition example_index :: "InvertedIndex list" where
  "example_index =
     [\<lparr>term_str = ''cat'', doc_ids = [''d1'']\<rparr>,
      \<lparr>term_str = ''dog'', doc_ids = [''d1'', ''d2'']\<rparr>,
      \<lparr>term_str = ''bird'', doc_ids = [''d2'']\<rparr>]"


section \<open>Notions used in the statements\<close>

text \<open>
  The strings and vectors of a running program are within the bounds of the library;
  a HOL list can be longer, so the statements about files ask for it.
\<close>

definition fits :: "string \<Rightarrow> bool" where
  "fits str \<longleftrightarrow> length str \<le> string_max_size"

definition fits_document :: "DirectIndex \<Rightarrow> bool" where
  "fits_document doc \<longleftrightarrow> fits (title doc) \<and> fits (url doc) \<and> fits (doc_id doc)"

definition fits_entry :: "InvertedIndex \<Rightarrow> bool" where
  "fits_entry entry \<longleftrightarrow>
     fits (term_str entry) \<and> length (doc_ids entry) \<le> vector_max_size
     \<and> list_all fits (doc_ids entry)"

text \<open>
  The bytes of one record in the order in which \<^verbatim>\<open>load_direct_index\<close> reads them:
  title, url, doc\_id.
\<close>

definition record_bytes :: "DirectIndex \<Rightarrow> string" where
  "record_bytes doc = put_string (title doc) @ put_string (url doc) @ put_string (doc_id doc)"

text \<open>
  The strings \<^verbatim>\<open>write_direct_index\<close> puts into the file, in order, and what the loop of
  \<^verbatim>\<open>load_direct_index\<close> makes of a file of length-prefixed strings: it takes them three
  at a time as title, url and doc\_id, and reaches an unfilled size variable when one
  or two strings are left over.
\<close>

definition fields_written :: "DirectIndex list \<Rightarrow> string list" where
  "fields_written docs = concat (map (\<lambda>doc. [title doc, url doc]) docs)"

fun regroup :: "string list \<Rightarrow> DirectIndex list \<Rightarrow> DirectIndex list outcome" where
  "regroup (t # u # d # fs) acc = regroup fs (acc @ [\<lparr>doc_id = d, title = t, url = u\<rparr>])"
| "regroup [] acc = Done acc"
| "regroup [t] acc = Indeterminate"
| "regroup [t, u] acc = Indeterminate"

text \<open>A file system that holds the query file alone, with the one query \<^verbatim>\<open>cat\<close>.\<close>

definition query_file_only :: "string \<Rightarrow> string option" where
  "query_file_only = [''queries.txt'' \<mapsto> ''cat'']"


section \<open>Properties of the set operations\<close>

text \<open>
  On ascending, duplicate-free lists the three library algorithms compute the
  intersection, the union and the difference, and their results are ascending and
  duplicate-free again.
\<close>

lemma set_difference_filter:
  "sorted_wrt (<) xs \<Longrightarrow> sorted_wrt (<) ys \<Longrightarrow>
   set_difference xs ys = filter (\<lambda>z. z \<notin> set ys) xs"
proof (induction xs ys rule: set_difference.induct)
  case (1 ys)
  show ?case by simp
next
  case (2 x xs)
  show ?case by simp
next
  case (3 x xs y ys)
  have sx: "sorted_wrt (<) xs" and sy: "sorted_wrt (<) ys"
    and gx: "\<forall>z\<in>set xs. x < z" and gy: "\<forall>z\<in>set ys. y < z"
    using "3.prems" by simp_all
  show ?case
  proof (cases "x < y")
    case True
    have "x \<notin> set (y # ys)" using True gy by fastforce
    moreover have "set_difference xs (y # ys) = filter (\<lambda>z. z \<notin> set (y # ys)) xs"
      using "3.IH"(1) [OF True sx "3.prems"(2)] .
    ultimately show ?thesis using True by simp
  next
    case False
    show ?thesis
    proof (cases "y < x")
      case True
      have ih: "set_difference (x # xs) ys = filter (\<lambda>z. z \<notin> set ys) (x # xs)"
        using "3.IH"(2) [OF False True "3.prems"(1) sy] .
      have "\<forall>z\<in>set (x # xs). z \<noteq> y" using True gx by fastforce
      then have "filter (\<lambda>z. z \<notin> set (y # ys)) (x # xs) = filter (\<lambda>z. z \<notin> set ys) (x # xs)"
        by (intro filter_cong) auto
      then show ?thesis using False True ih by simp
    next
      case F2: False
      have xy: "x = y" using False F2 by simp
      have ih: "set_difference xs ys = filter (\<lambda>z. z \<notin> set ys) xs"
        using "3.IH"(3) [OF False F2 sx sy] .
      have "\<forall>z\<in>set xs. z \<noteq> y" using gx xy by fastforce
      then have "filter (\<lambda>z. z \<notin> set (y # ys)) xs = filter (\<lambda>z. z \<notin> set ys) xs"
        by (intro filter_cong) auto
      then show ?thesis using xy ih by simp
    qed
  qed
qed

lemma set_intersection_filter:
  "sorted_wrt (<) xs \<Longrightarrow> sorted_wrt (<) ys \<Longrightarrow>
   set_intersection xs ys = filter (\<lambda>z. z \<in> set ys) xs"
proof (induction xs ys rule: set_intersection.induct)
  case (1 ys)
  show ?case by simp
next
  case (2 x xs)
  show ?case by simp
next
  case (3 x xs y ys)
  have sx: "sorted_wrt (<) xs" and sy: "sorted_wrt (<) ys"
    and gx: "\<forall>z\<in>set xs. x < z" and gy: "\<forall>z\<in>set ys. y < z"
    using "3.prems" by simp_all
  show ?case
  proof (cases "x < y")
    case True
    have "x \<notin> set (y # ys)" using True gy by fastforce
    moreover have "set_intersection xs (y # ys) = filter (\<lambda>z. z \<in> set (y # ys)) xs"
      using "3.IH"(1) [OF True sx "3.prems"(2)] .
    ultimately show ?thesis using True by simp
  next
    case False
    show ?thesis
    proof (cases "y < x")
      case True
      have ih: "set_intersection (x # xs) ys = filter (\<lambda>z. z \<in> set ys) (x # xs)"
        using "3.IH"(2) [OF False True "3.prems"(1) sy] .
      have "\<forall>z\<in>set (x # xs). z \<noteq> y" using True gx by fastforce
      then have "filter (\<lambda>z. z \<in> set (y # ys)) (x # xs) = filter (\<lambda>z. z \<in> set ys) (x # xs)"
        by (intro filter_cong) auto
      then show ?thesis using False True ih by simp
    next
      case F2: False
      have xy: "x = y" using False F2 by simp
      have ih: "set_intersection xs ys = filter (\<lambda>z. z \<in> set ys) xs"
        using "3.IH"(3) [OF False F2 sx sy] .
      have "\<forall>z\<in>set xs. z \<noteq> y" using gx xy by fastforce
      then have "filter (\<lambda>z. z \<in> set (y # ys)) xs = filter (\<lambda>z. z \<in> set ys) xs"
        by (intro filter_cong) auto
      then show ?thesis using xy ih by simp
    qed
  qed
qed

lemma set_set_union: "set (set_union xs ys) = set xs \<union> set ys"
  by (induction xs ys rule: set_union.induct) auto

lemma sorted_set_union:
  "sorted_wrt (<) xs \<Longrightarrow> sorted_wrt (<) ys \<Longrightarrow> sorted_wrt (<) (set_union xs ys)"
  by (induction xs ys rule: set_union.induct) (auto simp: set_set_union)

lemma and_operation_intersection:
  assumes "sorted left" "distinct left" "sorted right" "distinct right"
  shows "set (and_operation left right) = set left \<inter> set right"
    and "sorted (and_operation left right)" and "distinct (and_operation left right)"
proof -
  have l: "sorted_wrt (<) left" and r: "sorted_wrt (<) right"
    using assms by (simp_all add: strict_sorted_iff)
  have eq: "and_operation left right = filter (\<lambda>z. z \<in> set right) left"
    using set_intersection_filter [OF l r] by (auto simp: and_operation_def)
  show "set (and_operation left right) = set left \<inter> set right"
    unfolding eq by auto
  show "sorted (and_operation left right)"
    unfolding eq using assms(1) by (rule sorted_wrt_filter)
  show "distinct (and_operation left right)"
    unfolding eq using assms(2) by simp
qed

lemma not_operation_filter:
  assumes "sorted left" "distinct left" "sorted right" "distinct right"
  shows "not_operation left right = filter (\<lambda>z. z \<notin> set right) left"
proof -
  have l: "sorted_wrt (<) left" and r: "sorted_wrt (<) right"
    using assms by (simp_all add: strict_sorted_iff)
  show ?thesis using set_difference_filter [OF l r] by (auto simp: not_operation_def)
qed

lemma not_operation_difference:
  assumes "sorted left" "distinct left" "sorted right" "distinct right"
  shows "set (not_operation left right) = set left - set right"
    and "sorted (not_operation left right)" and "distinct (not_operation left right)"
proof -
  note eq = not_operation_filter [OF assms]
  show "set (not_operation left right) = set left - set right"
    unfolding eq by auto
  show "sorted (not_operation left right)"
    unfolding eq using assms(1) by (rule sorted_wrt_filter)
  show "distinct (not_operation left right)"
    unfolding eq using assms(2) by simp
qed

lemma or_operation_union:
  assumes "sorted left" "distinct left" "sorted right" "distinct right"
    and "left \<noteq> []" "right \<noteq> []"
  shows "set (or_operation left right) = set left \<union> set right"
    and "sorted (or_operation left right)" and "distinct (or_operation left right)"
proof -
  have l: "sorted_wrt (<) left" and r: "sorted_wrt (<) right"
    using assms by (simp_all add: strict_sorted_iff)
  have eq: "or_operation left right = set_union left right"
    using assms(5,6) by (simp add: or_operation_def)
  show "set (or_operation left right) = set left \<union> set right"
    unfolding eq by (rule set_set_union)
  have "sorted_wrt (<) (set_union left right)" using l r by (rule sorted_set_union)
  then show "sorted (or_operation left right)" and "distinct (or_operation left right)"
    unfolding eq by (simp_all add: strict_sorted_iff)
qed

section \<open>Properties of the codec and of the input stream\<close>

lemma length_le_bytes: "length (le_bytes k n) = k"
  by (induction k arbitrary: n) simp_all

lemma le_value_le_bytes: "le_value (le_bytes k n) = n mod 256 ^ k"
proof (induction k arbitrary: n)
  case 0
  show ?case by simp
next
  case (Suc k)
  have "le_value (le_bytes (Suc k) n) = n mod 256 + 256 * (n div 256 mod 256 ^ k)"
    by (simp add: Suc.IH)
  also have "\<dots> = n mod (256 * 256 ^ k)"
    by (simp add: mod_mult2_eq)
  finally show ?case by simp
qed

lemma length_u64_bytes: "length (u64_bytes w) = 8"
  by (simp add: u64_bytes_def length_le_bytes)

lemma u64_of_bytes_u64_bytes: "u64_of_bytes (u64_bytes w) = w"
proof -
  have "unat w < 2 ^ 64" using unsigned_less [of w] by simp
  then have "unat w mod 256 ^ 8 = unat w" by simp
  then show ?thesis by (simp add: u64_of_bytes_def u64_bytes_def le_value_le_bytes)
qed

lemma stream_read_exact:
  "length bs = n \<Longrightarrow>
   stream_read n \<lparr>rest = bs @ r, eofbit = False, failbit = False\<rparr>
     = (bs, \<lparr>rest = r, eofbit = False, failbit = False\<rparr>)"
  by (simp add: stream_read_def)

lemma stream_read_short:
  "length r < n \<Longrightarrow>
   stream_read n \<lparr>rest = r, eofbit = False, failbit = False\<rparr>
     = (r, \<lparr>rest = [], eofbit = True, failbit = True\<rparr>)"
  by (simp add: stream_read_def)

lemma stream_read_failed:
  "stream_read n \<lparr>rest = r, eofbit = e, failbit = True\<rparr>
     = ([], \<lparr>rest = r, eofbit = e, failbit = True\<rparr>)"
  by (simp add: stream_read_def)

lemma read_u64_exact:
  "read_u64 \<lparr>rest = u64_bytes w @ r, eofbit = False, failbit = False\<rparr>
     = (Some w, \<lparr>rest = r, eofbit = False, failbit = False\<rparr>)"
  by (simp add: read_u64_def stream_read_exact length_u64_bytes u64_of_bytes_u64_bytes)

lemma read_u64_short:
  "length r < 8 \<Longrightarrow>
   read_u64 \<lparr>rest = r, eofbit = False, failbit = False\<rparr>
     = (None, \<lparr>rest = [], eofbit = True, failbit = True\<rparr>)"
  by (simp add: read_u64_def stream_read_short)

lemma read_u64_failed:
  "read_u64 \<lparr>rest = r, eofbit = e, failbit = True\<rparr>
     = (None, \<lparr>rest = r, eofbit = e, failbit = True\<rparr>)"
  by (simp add: read_u64_def stream_read_failed)

lemma unat_of_nat_small: "n < 2 ^ 64 \<Longrightarrow> unat (word_of_nat n :: u64) = n"
  by (simp add: unat_of_nat take_bit_nat_eq_self)

lemma unat_length:
  "length str \<le> string_max_size \<Longrightarrow> unat (word_of_nat (length str) :: u64) = length str"
  by (rule unat_of_nat_small) (simp add: string_max_size_def)

lemma read_string_exact:
  "length str \<le> string_max_size \<Longrightarrow>
   read_string (word_of_nat (length str)) \<lparr>rest = str @ r, eofbit = False, failbit = False\<rparr>
     = Some (str, \<lparr>rest = r, eofbit = False, failbit = False\<rparr>)"
  by (simp add: read_string_def unat_length stream_read_exact)

lemma put_string_eq:
  "length str \<le> string_max_size \<Longrightarrow> put_string str = u64_bytes (word_of_nat (length str)) @ str"
  by (simp add: put_string_def unat_length Let_def)

lemma direct_record_exact:
  assumes "length u \<le> string_max_size" "length d \<le> string_max_size" "length t \<le> string_max_size"
  shows "direct_record (word_of_nat (length t))
           \<lparr>rest = t @ put_string u @ put_string d @ r, eofbit = False, failbit = False\<rparr>
         = Done (\<lparr>doc_id = d, title = t, url = u\<rparr>,
                 \<lparr>rest = r, eofbit = False, failbit = False\<rparr>)"
  using assms
  by (simp add: direct_record_def read_string_exact put_string_eq read_u64_exact)

lemma direct_loop_record:
  assumes "length t \<le> string_max_size" "length u \<le> string_max_size" "length d \<le> string_max_size"
  shows "direct_loop \<lparr>rest = put_string t @ put_string u @ put_string d @ r,
                       eofbit = False, failbit = False\<rparr> acc
         = direct_loop \<lparr>rest = r, eofbit = False, failbit = False\<rparr>
             (acc @ [\<lparr>doc_id = d, title = t, url = u\<rparr>])"
proof -
  have "put_string t @ put_string u @ put_string d @ r
        = u64_bytes (word_of_nat (length t)) @ (t @ put_string u @ put_string d @ r)"
    using assms(1) by (simp add: put_string_eq)
  then show ?thesis
    using direct_record_exact [OF assms(2) assms(3) assms(1), of r]
    by (subst direct_loop.simps) (simp add: read_u64_exact)
qed

lemma direct_loop_short:
  "length r < 8 \<Longrightarrow>
   direct_loop \<lparr>rest = r, eofbit = False, failbit = False\<rparr> acc = Done acc"
  by (subst direct_loop.simps) (simp add: read_u64_short)

lemma direct_loop_failed:
  "direct_loop \<lparr>rest = r, eofbit = e, failbit = True\<rparr> acc = Done acc"
  by (subst direct_loop.simps) simp


section \<open>The query lexer\<close>












lemma lex_loop_in_quotes:
  "\<forall>c\<in>set w. \<not> is_quote c \<and> \<not> is_operator_char c \<Longrightarrow>
   lex_loop (w @ query) tokens token True = lex_loop query tokens (token @ w) True"
  by (induction w arbitrary: token) simp_all



text \<open>
  Claim C5. Between quotation marks, spaces and parentheses are kept in the operand,
  since the separator branch tests \<^verbatim>\<open>!in_quotes\<close>. The operator branch has no such test:
  the quoted text \<^verbatim>\<open>a&b\<close> is cut into the three tokens \<^verbatim>\<open>a\<close>, \<^verbatim>\<open>&\<close> and \<^verbatim>\<open>b\<close>, against
  the claim that quoted text is one operand token.
\<close>

theorem operator_inside_quotes_splits:
  "parse_query [CHR 0x22, CHR ''a'', CHR ''&'', CHR ''b'', CHR 0x22] = [''a'', ''&'', ''b'']"
  by code_simp

text \<open>
  Quoted text without operator characters does come out as one token, spaces and
  parentheses included.
\<close>

lemma quoted_text_single_token:
  assumes "w \<noteq> []" and "\<forall>c\<in>set w. \<not> is_quote c \<and> \<not> is_operator_char c"
  shows "parse_query (CHR 0x22 # w @ [CHR 0x22]) = [w]"
proof -
  have "parse_query (CHR 0x22 # w @ [CHR 0x22]) = lex_loop (w @ [CHR 0x22]) [] [] True"
    by (simp add: parse_query_def is_quote_def)
  also have "\<dots> = lex_loop [CHR 0x22] [] ([] @ w) True"
    using assms(2) by (rule lex_loop_in_quotes)
  also have "\<dots> = [w]" using assms(1) by (simp add: flush_def is_quote_def)
  finally show ?thesis .
qed


section \<open>The query evaluator\<close>

lemma lookup_term_None: "lookup_term idx token = None \<longleftrightarrow> token \<notin> set (map term_str idx)"
  by (induction idx) auto

text \<open>
  Claim C8. An operator token (\<^verbatim>\<open>&&\<close>, \<^verbatim>\<open>||\<close> or \<^verbatim>\<open>!\<close>) met with fewer than two lists on the
  stack is skipped: the stack is unchanged, nothing is popped and nothing is pushed.
\<close>

theorem operator_underflow_is_noop:
  "is_operator token \<Longrightarrow> length stack < 2 \<Longrightarrow> eval_token idx stack token = stack"
  by (simp add: eval_token_def)

theorem operator_underflow_witness:
  "is_operator ''||'' \<and> length [[''d1'']] < 2
   \<and> eval_token example_index [[''d1'']] ''||'' = [[''d1'']]"
proof -
  have a: "is_operator ''||''" by (simp add: is_operator_def)
  have b: "length [[''d1'']] < 2" by simp
  show ?thesis using a b operator_underflow_is_noop [OF a b, of example_index] by simp
qed

text \<open>
  Claim C9. An operand token whose text is not a term of the inverted index leaves the
  stack as it is; so a query that is one unknown term leaves the stack empty and the
  result of the search is the empty list.
\<close>

theorem unknown_operand_pushes_nothing:
  assumes "\<not> is_operator token" and "token \<notin> set (map term_str idx)"
  shows "eval_token idx stack token = stack
         \<and> (parse_query query = [token] \<longrightarrow>
              eval_tokens idx (parse_query query) [] = []
              \<and> boolean_search query idx dir = [])"
proof -
  have n: "lookup_term idx token = None"
    using assms(2) by (simp add: lookup_term_None)
  have step: "\<And>st. eval_token idx st token = st"
    using assms(1) n by (simp add: eval_token_def)
  show ?thesis using step by (simp add: boolean_search_def eval_tokens_def)
qed

theorem unknown_operand_witness:
  "\<not> is_operator ''fish'' \<and> ''fish'' \<notin> set (map term_str example_index)
   \<and> parse_query ''fish'' = [''fish'']
   \<and> eval_token example_index [[''d1'']] ''fish'' = [[''d1'']]
   \<and> boolean_search ''fish'' example_index [] = []"
proof -
  have a: "\<not> is_operator ''fish''" by (simp add: is_operator_def)
  have b: "''fish'' \<notin> set (map term_str example_index)" by (simp add: example_index_def)
  have c: "parse_query ''fish'' = [''fish'']" by code_simp
  show ?thesis
    using a b c unknown_operand_pushes_nothing [OF a b, of "[[''d1'']]" "''fish''" "[]"]
    by simp
qed

text \<open>
  Claim C7, with the condition the evaluator relies on. The token \<^verbatim>\<open>!\<close> met with at
  least two lists on the stack pops the top as \<open>right\<close> and the next as \<open>left\<close> and
  pushes \<^verbatim>\<open>not_operation(left, right)\<close>: a binary operation, not a unary negation. When
  both lists are ascending and duplicate-free, the list pushed is \<open>left\<close> without the
  elements of \<open>right\<close>, in the order of \<open>left\<close>. Over the example index the query
  \<^verbatim>\<open>dog cat !\<close> gives the list with d2 alone.
\<close>

theorem not_operator_is_binary_difference:
  "eval_token idx (stack @ [left, right]) ''!'' = stack @ [not_operation left right]
   \<and> (sorted left \<and> distinct left \<and> sorted right \<and> distinct right \<longrightarrow>
        not_operation left right = filter (\<lambda>d. d \<notin> set right) left)
   \<and> boolean_search ''dog cat !'' example_index dir = [''d2'']"
proof -
  have a: "eval_token idx (stack @ [left, right]) ''!''
           = stack @ [not_operation left right]"
    by (simp add: eval_token_def is_operator_def butlast_append)
  have c: "boolean_search ''dog cat !'' example_index dir = [''d2'']"
    by (simp add: boolean_search_def) code_simp
  show ?thesis using a c not_operation_filter by blast
qed

theorem not_operator_witness:
  "sorted [''d1'', ''d2''] \<and> distinct [''d1'', ''d2''] \<and> sorted [''d1''] \<and> distinct [''d1'']
   \<and> eval_token example_index [[''d1'', ''d2''], [''d1'']] ''!'' = [[''d2'']]"
proof -
  have s: "sorted [''d1'', ''d2''] \<and> distinct [''d1'', ''d2''] \<and> sorted [''d1''] \<and> distinct [''d1'']"
    by simp
  show ?thesis
    using s not_operator_is_binary_difference [of example_index "[]" "[''d1'', ''d2'']" "[''d1'']" "[]"]
    by simp
qed

text \<open>
  Claim C7 as stated, for every two lists, fails. With \<open>left\<close> = d2, d2, d1 and
  \<open>right\<close> = d1 the operator pushes \<open>left\<close> unchanged, d1 included, which is not the
  difference of the two. These are the postings of \<^verbatim>\<open>cat\<close> and \<^verbatim>\<open>dog\<close> that the builder
  produces for the corpus d2 = "cat cat", d1 = "cat dog", so over the built index the
  query \<^verbatim>\<open>cat dog !\<close> returns d1 although d1 holds \<^verbatim>\<open>dog\<close>.
\<close>

theorem not_operator_on_unsorted_lists:
  "eval_token example_index [[''d2'', ''d2'', ''d1''], [''d1'']] ''!''
     = [[''d2'', ''d2'', ''d1'']]
   \<and> set [''d2'', ''d2'', ''d1''] \<noteq> set [''d2'', ''d2'', ''d1''] - set [''d1'']
   \<and> boolean_search ''cat dog !''
        (inverted_index (build [Parsed ''d2'' ''T2'' ''U2'' ''cat cat'',
                                Parsed ''d1'' ''T1'' ''U1'' ''cat dog''])) []
       = [''d2'', ''d2'', ''d1'']"
proof -
  have a: "eval_token example_index [[''d2'', ''d2'', ''d1''], [''d1'']] ''!''
           = [[''d2'', ''d2'', ''d1'']]"
    by code_simp
  have b: "set [''d2'', ''d2'', ''d1''] \<noteq> set [''d2'', ''d2'', ''d1''] - set [''d1'']"
    by auto
  have c: "boolean_search ''cat dog !''
        (inverted_index (build [Parsed ''d2'' ''T2'' ''U2'' ''cat cat'',
                                Parsed ''d1'' ''T1'' ''U1'' ''cat dog''])) []
       = [''d2'', ''d2'', ''d1'']"
    by code_simp
  show ?thesis using a b c by simp
qed

text \<open>
  Claim C3. \<^verbatim>\<open>and_operation\<close> and \<^verbatim>\<open>not_operation\<close> are the intersection and the
  difference (lemmas \<open>and_operation_intersection\<close>, \<open>not_operation_difference\<close>), and
  \<^verbatim>\<open>or_operation\<close> is the union when both lists are non-empty (\<open>or_operation_union\<close>).
  But \<^verbatim>\<open>or_operation\<close> begins with the early return of \<^verbatim>\<open>and_operation\<close>: when either
  list is empty it returns the empty list, not the other list. So the union with an
  empty list is lost, and over the example index the query \<^verbatim>\<open>cat bird && dog ||\<close>,
  whose first operand of \<^verbatim>\<open>||\<close> is the empty intersection, finds nothing.
\<close>

theorem or_operation_empty_operand:
  "or_operation [] [''d1''] = [] \<and> or_operation [''d1''] [] = []
   \<and> boolean_search ''cat bird && dog ||'' example_index [] = []"
  by code_simp




section \<open>The direct index file\<close>

lemma direct_loop_one_field:
  assumes "fits t"
  shows "direct_loop \<lparr>rest = put_string t, eofbit = False, failbit = False\<rparr> acc = Indeterminate"
proof -
  have t: "length t \<le> string_max_size" using assms by (simp add: fits_def)
  have a: "read_u64 \<lparr>rest = put_string t, eofbit = False, failbit = False\<rparr>
           = (Some (word_of_nat (length t)), \<lparr>rest = t, eofbit = False, failbit = False\<rparr>)"
    using read_u64_exact [of "word_of_nat (length t)" t] t by (simp add: put_string_eq)
  have b: "direct_record (word_of_nat (length t)) \<lparr>rest = t, eofbit = False, failbit = False\<rparr> = Indeterminate"
    using read_string_exact [OF t, of "[]"] by (simp add: direct_record_def read_u64_short)
  show ?thesis by (subst direct_loop.simps) (simp add: a b)
qed

lemma direct_loop_two_fields:
  assumes "fits t" "fits u"
  shows "direct_loop \<lparr>rest = put_string t @ put_string u, eofbit = False, failbit = False\<rparr> acc
         = Indeterminate"
proof -
  have t: "length t \<le> string_max_size" and u: "length u \<le> string_max_size" using assms by (simp_all add: fits_def)
  have a: "read_u64 \<lparr>rest = put_string t @ put_string u, eofbit = False, failbit = False\<rparr>
           = (Some (word_of_nat (length t)),
              \<lparr>rest = t @ put_string u, eofbit = False, failbit = False\<rparr>)"
    using read_u64_exact [of "word_of_nat (length t)" "t @ put_string u"] t
    by (simp add: put_string_eq)
  have c: "read_u64 \<lparr>rest = put_string u, eofbit = False, failbit = False\<rparr>
           = (Some (word_of_nat (length u)), \<lparr>rest = u, eofbit = False, failbit = False\<rparr>)"
    using read_u64_exact [of "word_of_nat (length u)" u] u by (simp add: put_string_eq)
  have b: "direct_record (word_of_nat (length t))
             \<lparr>rest = t @ put_string u, eofbit = False, failbit = False\<rparr> = Indeterminate"
    using read_string_exact [OF t, of "put_string u"] read_string_exact [OF u, of "[]"]
    by (simp add: direct_record_def c read_u64_short)
  show ?thesis by (subst direct_loop.simps) (simp add: a b)
qed

lemma direct_loop_fields:
  "list_all fits fs \<Longrightarrow>
   direct_loop \<lparr>rest = concat (map put_string fs), eofbit = False, failbit = False\<rparr> acc
     = regroup fs acc"
proof (induction fs acc rule: regroup.induct)
  case (1 t u d fs acc)
  then have f: "fits t" "fits u" "fits d" and r: "list_all fits fs"
    by simp_all
  have "length t \<le> string_max_size" "length u \<le> string_max_size" "length d \<le> string_max_size"
    using f by (simp_all add: fits_def)
  then show ?case using "1.IH" [OF r] by (simp add: direct_loop_record)
next
  case (2 acc)
  show ?case by (simp add: direct_loop_short)
next
  case (3 t acc)
  then show ?case by (simp add: direct_loop_one_field)
next
  case (4 t u acc)
  then show ?case by (simp add: direct_loop_two_fields)
qed

lemma regroup_length:
  "regroup fs acc = Done rs \<Longrightarrow> 3 * length rs = 3 * length acc + length fs"
  by (induction fs acc rule: regroup.induct) auto

lemma write_direct_index_fields:
  "write_direct_index docs True
     = ([], Some (concat (map put_string (fields_written docs))))"
  by (induction docs)
     (simp_all add: write_direct_index_def fields_written_def document_bytes_def)

lemma load_written_direct_index:
  assumes "list_all (\<lambda>doc. fits (title doc) \<and> fits (url doc)) docs"
  shows "load_direct_index (snd (write_direct_index docs True)) []
         = ([], regroup (fields_written docs) [])"
proof -
  have "list_all fits (fields_written docs)"
    using assms by (induction docs) (simp_all add: fields_written_def)
  then show ?thesis
    by (simp add: write_direct_index_fields load_direct_index_def open_in_def direct_loop_fields)
qed

text \<open>
  No direct index but the empty one comes back from its own file.
\<close>

lemma direct_index_never_round_trips:
  assumes "docs \<noteq> []"
    and "list_all (\<lambda>doc. fits (title doc) \<and> fits (url doc)) docs"
  shows "snd (load_direct_index (snd (write_direct_index docs True)) [])
         \<noteq> Done docs"
proof
  assume "snd (load_direct_index (snd (write_direct_index docs True)) [])
          = Done docs"
  then have "regroup (fields_written docs) [] = Done docs"
    using load_written_direct_index [OF assms(2)] by simp
  then have "3 * length docs = length (fields_written docs)"
    using regroup_length by fastforce
  moreover have "length (fields_written docs) = 2 * length docs"
    by (induction docs) (simp_all add: fields_written_def)
  ultimately show False using assms(1) by simp
qed

text \<open>
  Claim C1. \<^verbatim>\<open>write_direct_index\<close> writes title and url of every record and leaves
  doc\_id out, while \<^verbatim>\<open>load_direct_index\<close> reads title, url and doc\_id. So the file of
  three records is read back as two records whose fields are shifted, d1, d2 and d3
  being lost; and reading the file of one record back ends in a \<^verbatim>\<open>resize\<close> to a size
  that was never read. The round trip the claim states does not hold.
\<close>

theorem written_direct_index_loads_differently:
  "load_direct_index
     (snd (write_direct_index
        [\<lparr>doc_id = ''d1'', title = ''T1'', url = ''U1''\<rparr>,
         \<lparr>doc_id = ''d2'', title = ''T2'', url = ''U2''\<rparr>,
         \<lparr>doc_id = ''d3'', title = ''T3'', url = ''U3''\<rparr>] True)) []
   = ([], Done [\<lparr>doc_id = ''T2'', title = ''T1'', url = ''U1''\<rparr>,
                \<lparr>doc_id = ''U3'', title = ''U2'', url = ''T3''\<rparr>])
   \<and> load_direct_index
        (snd (write_direct_index [\<lparr>doc_id = ''d1'', title = ''T1'', url = ''U1''\<rparr>] True)) []
      = ([], Indeterminate)"
  by (simp add: load_written_direct_index fits_def string_max_size_def fields_written_def)



section \<open>Loading the index files\<close>

lemma direct_loop_layout:
  "list_all fits_document docs \<Longrightarrow> length tail < 8 \<Longrightarrow>
   direct_loop \<lparr>rest = concat (map record_bytes docs) @ tail, eofbit = False, failbit = False\<rparr> acc
     = Done (acc @ docs)"
proof (induction docs arbitrary: acc)
  case Nil
  then show ?case by (simp add: direct_loop_short)
next
  case (Cons doc docs)
  have d: "fits_document doc" and r: "list_all fits_document docs"
    using Cons.prems(1) by simp_all
  have "length (title doc) \<le> string_max_size" "length (url doc) \<le> string_max_size" "length (doc_id doc) \<le> string_max_size"
    using d by (simp_all add: fits_document_def fits_def)
  then show ?case
    using Cons.IH [OF r Cons.prems(2)] by (simp add: record_bytes_def direct_loop_record)
qed

lemma read_doc_ids_exact:
  "list_all fits ids \<Longrightarrow>
   read_doc_ids (length ids)
     \<lparr>rest = concat (map put_string ids) @ r, eofbit = False, failbit = False\<rparr> acc
     = Done (acc @ ids, \<lparr>rest = r, eofbit = False, failbit = False\<rparr>)"
proof (induction ids arbitrary: acc)
  case Nil
  show ?case by simp
next
  case (Cons d ids)
  have f: "fits d" and r: "list_all fits ids"
    using Cons.prems by simp_all
  have d: "length d \<le> string_max_size" using f by (simp add: fits_def)
  show ?case
    using Cons.IH [OF r] d
    by (simp add: put_string_eq read_u64_exact read_string_exact)
qed

lemma inverted_record_exact:
  assumes "fits_entry entry"
  shows "inverted_record (word_of_nat (length (term_str entry)))
           \<lparr>rest = term_str entry @ u64_bytes (word_of_nat (length (doc_ids entry)))
                     @ concat (map put_string (doc_ids entry)) @ r,
             eofbit = False, failbit = False\<rparr>
         = Done (entry, \<lparr>rest = r, eofbit = False, failbit = False\<rparr>)"
proof -
  have t: "length (term_str entry) \<le> string_max_size"
    and n: "length (doc_ids entry) \<le> vector_max_size"
    and a: "list_all fits (doc_ids entry)"
    using assms by (simp_all add: fits_entry_def fits_def)
  have "length (doc_ids entry) < 2 ^ 64" using n by (simp add: vector_max_size_def)
  then have u: "unat (word_of_nat (length (doc_ids entry)) :: u64) = length (doc_ids entry)"
    by (rule unat_of_nat_small)
  have v: "\<not> vector_max_size < length (doc_ids entry)" using n by simp
  show ?thesis
    using read_doc_ids_exact [OF a, of r "[]"] v
    by (simp add: inverted_record_def read_string_exact [OF t] read_u64_exact u)
qed

lemma inverted_loop_entry:
  assumes "fits_entry entry"
  shows "inverted_loop \<lparr>rest = entry_bytes entry @ r, eofbit = False, failbit = False\<rparr> acc
         = inverted_loop \<lparr>rest = r, eofbit = False, failbit = False\<rparr> (acc @ [entry])"
proof -
  have t: "length (term_str entry) \<le> string_max_size" using assms by (simp add: fits_entry_def fits_def)
  have "entry_bytes entry @ r
        = u64_bytes (word_of_nat (length (term_str entry)))
          @ (term_str entry @ u64_bytes (word_of_nat (length (doc_ids entry)))
             @ concat (map put_string (doc_ids entry)) @ r)"
    using t by (simp add: entry_bytes_def put_string_eq)
  then show ?thesis
    using inverted_record_exact [OF assms, of r]
    by (subst inverted_loop.simps) (simp add: read_u64_exact)
qed

lemma inverted_loop_short:
  "length r < 8 \<Longrightarrow>
   inverted_loop \<lparr>rest = r, eofbit = False, failbit = False\<rparr> acc = Done acc"
  by (subst inverted_loop.simps) (simp add: read_u64_short)

lemma inverted_loop_layout:
  "list_all fits_entry entries \<Longrightarrow> length tail < 8 \<Longrightarrow>
   inverted_loop \<lparr>rest = concat (map entry_bytes entries) @ tail,
                   eofbit = False, failbit = False\<rparr> acc
     = Done (acc @ entries)"
proof (induction entries arbitrary: acc)
  case Nil
  then show ?case by (simp add: inverted_loop_short)
next
  case (Cons entry entries)
  have e: "fits_entry entry" and r: "list_all fits_entry entries"
    using Cons.prems(1) by simp_all
  show ?case
    using Cons.IH [OF r Cons.prems(2)] by (simp add: inverted_loop_entry [OF e])
qed

lemma direct_loop_truncated_doc_id:
  assumes "length t \<le> string_max_size" "length u \<le> string_max_size"
    and "length part < unat n" "unat n \<le> string_max_size"
  shows "direct_loop \<lparr>rest = put_string t @ put_string u @ u64_bytes n @ part,
                       eofbit = False, failbit = False\<rparr> acc
         = Done (acc @ [\<lparr>doc_id = part @ replicate (unat n - length part) (CHR 0x00),
                         title = t, url = u\<rparr>])"
proof -
  have r1: "read_u64 \<lparr>rest = put_string t @ put_string u @ u64_bytes n @ part,
                       eofbit = False, failbit = False\<rparr>
            = (Some (word_of_nat (length t)),
               \<lparr>rest = t @ put_string u @ u64_bytes n @ part,
                 eofbit = False, failbit = False\<rparr>)"
    using read_u64_exact [of "word_of_nat (length t)" "t @ put_string u @ u64_bytes n @ part"]
      assms(1)
    by (simp add: put_string_eq)
  have r2: "read_u64 \<lparr>rest = put_string u @ u64_bytes n @ part,
                       eofbit = False, failbit = False\<rparr>
            = (Some (word_of_nat (length u)),
               \<lparr>rest = u @ u64_bytes n @ part, eofbit = False, failbit = False\<rparr>)"
    using read_u64_exact [of "word_of_nat (length u)" "u @ u64_bytes n @ part"] assms(2)
    by (simp add: put_string_eq)
  have r3: "read_string n \<lparr>rest = part, eofbit = False, failbit = False\<rparr>
            = Some (part @ replicate (unat n - length part) (CHR 0x00),
                    \<lparr>rest = [], eofbit = True, failbit = True\<rparr>)"
    using assms(3,4) by (simp add: read_string_def stream_read_def)
  have r4: "direct_record (word_of_nat (length t))
              \<lparr>rest = t @ put_string u @ u64_bytes n @ part, eofbit = False, failbit = False\<rparr>
            = Done (\<lparr>doc_id = part @ replicate (unat n - length part) (CHR 0x00),
                      title = t, url = u\<rparr>,
                    \<lparr>rest = [], eofbit = True, failbit = True\<rparr>)"
    by (simp add: direct_record_def read_string_exact [OF assms(1)] r2
          read_string_exact [OF assms(2)] read_u64_exact r3)
  show ?thesis
    by (subst direct_loop.simps) (simp add: r1 r4 direct_loop_failed)
qed

lemma eval_tokens_empty_index: "eval_tokens [] tokens [] = []"
proof -
  have "foldl (eval_token []) [] tokens = []"
    by (induction tokens) (simp_all add: eval_token_def)
  then show ?thesis by (simp add: eval_tokens_def)
qed

lemma boolean_search_empty_index: "boolean_search query [] dir = []"
  by (simp add: boolean_search_def eval_tokens_empty_index)

lemma answer_queries_empty_index:
  "answer_queries queries [] dir
   = concat (map (\<lambda>query. [NothingFound query, EmptyLine])
                 (filter (\<lambda>query. query \<noteq> []) (getlines queries [])))"
  by (simp add: answer_queries_def boolean_search_empty_index print_result_def)

text \<open>
  An index file that cannot be opened makes the loader print a diagnostic and return
  with the table as it was. Whenever both loaders return, the searcher goes on to
  answer the queries and exits with status 0, whatever the loaders printed. Decoding
  ends without a diagnostic when fewer than eight bytes are left after the last
  complete record.
\<close>

lemma missing_index_file_is_logged:
  "load_direct_index None docs = ([DirectOpenFailed], Done docs)"
  "load_inverted_index None entries = ([InvertedOpenFailed], Done entries)"
  by (simp_all add: load_direct_index_def load_inverted_index_def)

lemma search_main_goes_on:
  assumes "files query_file = Some queries"
    and "load_direct_index (files ''data/direct_index.bin'') [] = (e1, Done docs)"
    and "load_inverted_index (files ''data/inverted_index.bin'') [] = (e2, Done entries)"
  shows "search_main (query_file # args) files
         = Done \<lparr>exit_status = 0, out_lines = answer_queries queries entries docs,
                 err_lines = e1 @ e2\<rparr>"
  using assms by (simp add: search_main_def)

lemma short_tail_is_dropped:
  assumes "list_all fits_document docs" "list_all fits_entry entries" "length tail < 8"
  shows "load_direct_index (Some (concat (map record_bytes docs) @ tail)) [] = ([], Done docs)"
    and "load_inverted_index (Some (concat (map entry_bytes entries) @ tail)) []
         = ([], Done entries)"
  using assms
  by (simp_all add: load_direct_index_def load_inverted_index_def open_in_def
        direct_loop_layout inverted_loop_layout)

text \<open>
  Claim C4. The loaders notice that an index file cannot be opened, print a
  diagnostic and return; \<^verbatim>\<open>main\<close>, which ends with status 1 when the query file cannot be
  opened, does not learn of it: with both index files missing the searcher answers the
  query and exits with status 0. Only the first read of a record is followed by a test
  of the stream: a file of three bytes, which ends inside the first size field, is
  loaded as the empty table without a diagnostic, and a file that ends inside the
  doc\_id of its record yields that record, its doc\_id padded with a zero byte. The
  claim says each of these is a fatal load error.
\<close>

theorem index_load_failure_not_fatal:
  "search_main [''queries.txt''] query_file_only
     = Done \<lparr>exit_status = 0, out_lines = [NothingFound ''cat'', EmptyLine],
             err_lines = [DirectOpenFailed, InvertedOpenFailed]\<rparr>
   \<and> load_direct_index (Some ''abc'') [] = ([], Done [])
   \<and> load_direct_index
        (Some (put_string ''T1'' @ put_string ''U1'' @ u64_bytes 2 @ ''d'')) []
       = ([], Done [\<lparr>doc_id = [CHR ''d'', CHR 0x00], title = ''T1'', url = ''U1''\<rparr>])"
proof -
  have a: "search_main [''queries.txt''] query_file_only
     = Done \<lparr>exit_status = 0, out_lines = [NothingFound ''cat'', EmptyLine],
             err_lines = [DirectOpenFailed, InvertedOpenFailed]\<rparr>"
    by (simp add: search_main_def query_file_only_def load_direct_index_def
          load_inverted_index_def answer_queries_empty_index is_newline_def)
  have b: "load_direct_index (Some ''abc'') [] = ([], Done [])"
    by (simp add: load_direct_index_def open_in_def direct_loop_short)
  have c: "load_direct_index
        (Some (put_string ''T1'' @ put_string ''U1'' @ u64_bytes 2 @ ''d'')) []
       = ([], Done [\<lparr>doc_id = [CHR ''d'', CHR 0x00], title = ''T1'', url = ''U1''\<rparr>])"
    using direct_loop_truncated_doc_id [of "''T1''" "''U1''" "''d''" 2 "[]"]
    by (simp add: load_direct_index_def open_in_def string_max_size_def)
  show ?thesis using a b c by simp
qed



section \<open>The builder\<close>

lemma process_line_convertible:
  "l \<noteq> Unconvertible \<Longrightarrow> aborted (process_line st l) = aborted st"
  "l \<noteq> Unconvertible \<Longrightarrow>
   total_docs (process_line st l) = total_docs st + (if l = ParseError then 0 else 1)"
  by (cases l; simp add: Let_def split_def)+

lemma corpus_loop_convertible:
  "Unconvertible \<notin> set ls \<Longrightarrow> \<not> aborted st \<Longrightarrow>
   \<not> aborted (corpus_loop st ls)
   \<and> total_docs (corpus_loop st ls)
       = total_docs st + length (filter (\<lambda>l. l \<noteq> ParseError) ls)"
proof (induction ls arbitrary: st)
  case Nil
  then show ?case by simp
next
  case (Cons l ls)
  have l: "l \<noteq> Unconvertible" and r: "Unconvertible \<notin> set ls"
    using Cons.prems(1) by auto
  have a: "\<not> aborted (process_line st l)"
    using Cons.prems(2) by (simp add: process_line_convertible(1) [OF l])
  show ?case
    using Cons.IH [OF r a] a by (simp add: process_line_convertible(2) [OF l])
qed

lemma build_convertible:
  assumes "Unconvertible \<notin> set ls"
  shows "\<not> aborted (build ls)"
    and "total_docs (build ls) = length (filter (\<lambda>l. l \<noteq> ParseError) ls)"
  using corpus_loop_convertible [OF assms, of initial_state]
  by (simp_all add: build_def initial_state_def)

text \<open>
  For every corpus whose lines parse or fail to parse, with a line that parsed or
  with a log file that cannot be opened: a failure to open an index file for writing
  is printed and nothing is written to that file, the other index file is written
  when it can be opened, and the builder exits with status 0.
\<close>

lemma builder_ignores_write_failure:
  assumes "Unconvertible \<notin> set ls"
    and "list_ex (\<lambda>l. l \<noteq> ParseError) ls \<or> \<not> log_opened"
  shows "ended (indexer_main (Some ls) direct_opened inverted_opened log_opened) = Exit 0"
    and "direct_file (indexer_main (Some ls) direct_opened inverted_opened log_opened)
         = (if direct_opened then snd (write_direct_index (direct_index (build ls)) True)
            else None)"
    and "inverted_file (indexer_main (Some ls) direct_opened inverted_opened log_opened)
         = (if inverted_opened then snd (write_inverted_index (inverted_index (build ls)) True)
            else None)"
    and "\<not> direct_opened \<Longrightarrow>
         DirectWriteFailed
           \<in> set (printed (indexer_main (Some ls) direct_opened inverted_opened log_opened))"
    and "\<not> inverted_opened \<Longrightarrow>
         InvertedWriteFailed
           \<in> set (printed (indexer_main (Some ls) direct_opened inverted_opened log_opened))"
proof -
  note b = build_convertible [OF assms(1)]
  have "filter (\<lambda>l. l \<noteq> ParseError) ls \<noteq> [] \<or> \<not> log_opened"
    using assms(2) by (auto simp: list_ex_iff filter_empty_conv)
  then have "total_docs (build ls) \<noteq> 0 \<or> \<not> log_opened"
    by (simp add: b(2))
  then have e: "snd (log_statistics log_opened (total_docs (build ls))) = Exit 0"
    by (auto simp: log_statistics_def)
  show "ended (indexer_main (Some ls) direct_opened inverted_opened log_opened) = Exit 0"
    using e b(1) by (simp add: indexer_main_def Let_def split_def)
  show "direct_file (indexer_main (Some ls) direct_opened inverted_opened log_opened)
         = (if direct_opened then snd (write_direct_index (direct_index (build ls)) True)
            else None)"
    using b(1) by (simp add: indexer_main_def Let_def split_def write_direct_index_def)
  show "inverted_file (indexer_main (Some ls) direct_opened inverted_opened log_opened)
         = (if inverted_opened then snd (write_inverted_index (inverted_index (build ls)) True)
            else None)"
    using b(1) by (simp add: indexer_main_def Let_def split_def write_inverted_index_def)
  show "DirectWriteFailed
           \<in> set (printed (indexer_main (Some ls) direct_opened inverted_opened log_opened))"
    if "\<not> direct_opened"
    using b(1) that by (simp add: indexer_main_def Let_def split_def write_direct_index_def)
  show "InvertedWriteFailed
           \<in> set (printed (indexer_main (Some ls) direct_opened inverted_opened log_opened))"
    if "\<not> inverted_opened"
    using b(1) that by (simp add: indexer_main_def Let_def split_def write_inverted_index_def)
qed

lemma build_example:
  "direct_index (build [Parsed ''d1'' ''T1'' ''U1'' ''cat''])
   = [\<lparr>doc_id = ''d1'', title = ''T1'', url = ''U1''\<rparr>]"
  "inverted_index (build [Parsed ''d1'' ''T1'' ''U1'' ''cat''])
   = [\<lparr>term_str = ''cat'', doc_ids = [''d1'']\<rparr>]"
  "messages (build [Parsed ''d1'' ''T1'' ''U1'' ''cat'']) = []"
  "total_docs (build [Parsed ''d1'' ''T1'' ''U1'' ''cat'']) = 1"
  "aborted (build [Parsed ''d1'' ''T1'' ''U1'' ''cat'']) = False"
  by code_simp+

text \<open>
  Claim C6. The writers notice that the output file cannot be opened and print a
  diagnostic, but \<^verbatim>\<open>main\<close>, which ends with status 1 when the corpus cannot be opened,
  does not learn of it: with the direct index file not writable the builder still
  writes the inverted index file, reports success and exits with status 0; with
  neither file writable it exits with status 0 as well. The claim says the build
  aborts with a non-zero status and persists nothing.
\<close>

theorem write_failure_exits_zero:
  "indexer_main (Some [Parsed ''d1'' ''T1'' ''U1'' ''cat'']) False True True
   = \<lparr>ended = Exit 0, direct_file = None,
      inverted_file = Some (entry_bytes \<lparr>term_str = ''cat'', doc_ids = [''d1'']\<rparr>),
      printed = [DirectWriteFailed]\<rparr>
   \<and> indexer_main (Some [Parsed ''d1'' ''T1'' ''U1'' ''cat'']) False False True
   = \<lparr>ended = Exit 0, direct_file = None, inverted_file = None,
      printed = [DirectWriteFailed, InvertedWriteFailed]\<rparr>"
  by (simp add: indexer_main_def Let_def build_example write_direct_index_def
        write_inverted_index_def log_statistics_def)

text \<open>
  Claim C2. The builder appends the document's id for every occurrence of a token
  and never sorts or deduplicates: for the corpus d2 = "cat cat", d1 = "cat dog" the
  postings list of \<^verbatim>\<open>cat\<close> is d2, d2, d1, neither ascending nor free of duplicates.
  The evaluator's set operations need ascending lists: over this index the query
  \<^verbatim>\<open>cat dog &&\<close> finds nothing, although d1 holds both words.
\<close>

theorem builder_postings_not_canonical:
  "inverted_index (build [Parsed ''d2'' ''T2'' ''U2'' ''cat cat'',
                          Parsed ''d1'' ''T1'' ''U1'' ''cat dog''])
   = [\<lparr>term_str = ''cat'', doc_ids = [''d2'', ''d2'', ''d1'']\<rparr>,
      \<lparr>term_str = ''dog'', doc_ids = [''d1'']\<rparr>]
   \<and> \<not> sorted [''d2'', ''d2'', ''d1''] \<and> \<not> distinct [''d2'', ''d2'', ''d1'']
   \<and> boolean_search ''cat dog &&''
        (inverted_index (build [Parsed ''d2'' ''T2'' ''U2'' ''cat cat'',
                                Parsed ''d1'' ''T1'' ''U1'' ''cat dog''])) [] = []"
  by code_simp



end
